theory Spec2Isabelle
  imports Complex_Main "HOL-Library.Sublist"
begin

section \<open>Python strings\<close>

text \<open>
  A Python \<open>str\<close> is modelled as a \<open>string\<close>, one \<open>char\<close> per code point; the model
  covers the code points below 256. The helpers below are the \<open>str\<close> methods and
  operators the modelled functions call.
\<close>

definition py_isspace :: "char \<Rightarrow> bool" where
  \<comment> \<open>the code points below 256 for which \<open>str.isspace\<close> holds; \<open>str.strip\<close> and the
      regular expression class \<open>\s\<close> use the same set\<close>
  "py_isspace c =
     (let n = (of_char c :: nat)
      in (9 \<le> n \<and> n \<le> 13) \<or> (28 \<le> n \<and> n \<le> 32) \<or> n = 133 \<or> n = 160)"

definition py_lower_char :: "char \<Rightarrow> char" where
  "py_lower_char c =
     (let n = (of_char c :: nat)
      in if (65 \<le> n \<and> n \<le> 90) \<or> (192 \<le> n \<and> n \<le> 222 \<and> n \<noteq> 215)
         then char_of (n + 32) else c)"

definition py_lower :: "string \<Rightarrow> string" where
  "py_lower s = map py_lower_char s"

definition py_lstrip :: "string \<Rightarrow> string" where
  "py_lstrip s = dropWhile py_isspace s"

definition py_rstrip :: "string \<Rightarrow> string" where
  "py_rstrip s = rev (dropWhile py_isspace (rev s))"

definition py_strip :: "string \<Rightarrow> string" where
  "py_strip s = py_rstrip (py_lstrip s)"

fun startswith :: "string \<Rightarrow> string \<Rightarrow> bool" where
  \<comment> \<open>\<open>startswith s p\<close> is \<open>s.startswith(p)\<close>\<close>
  "startswith s [] = True"
| "startswith [] (p # ps) = False"
| "startswith (c # cs) (p # ps) = (c = p \<and> startswith cs ps)"

definition endswith :: "string \<Rightarrow> string \<Rightarrow> bool" where
  \<comment> \<open>\<open>endswith s p\<close> is \<open>s.endswith(p)\<close>\<close>
  "endswith s p = startswith (rev s) (rev p)"

fun py_in :: "string \<Rightarrow> string \<Rightarrow> bool" where
  \<comment> \<open>\<open>py_in sub s\<close> is \<open>sub in s\<close>\<close>
  "py_in sub [] = (sub = [])"
| "py_in sub (c # cs) = (startswith (c # cs) sub \<or> py_in sub cs)"

fun split_scan :: "string \<Rightarrow> nat \<Rightarrow> string \<Rightarrow> string \<Rightarrow> string list" where
  \<comment> \<open>left-to-right scan of \<open>str.split(sep)\<close>: \<open>k\<close> characters of a separator just
      found are still to be skipped, \<open>acc\<close> is the current piece, reversed\<close>
  "split_scan sep k acc [] = [rev acc]"
| "split_scan sep (Suc k) acc (c # cs) = split_scan sep k acc cs"
| "split_scan sep 0 acc (c # cs) =
     (if startswith (c # cs) sep then rev acc # split_scan sep (length sep - 1) [] cs
      else split_scan sep 0 (c # acc) cs)"

definition py_split :: "string \<Rightarrow> string \<Rightarrow> string list" where
  \<comment> \<open>\<open>py_split sep s\<close> is \<open>s.split(sep)\<close> for a non-empty separator \<open>sep\<close>\<close>
  "py_split sep s = split_scan sep 0 [] s"

fun py_join :: "string \<Rightarrow> string list \<Rightarrow> string" where
  \<comment> \<open>\<open>py_join sep xs\<close> is \<open>sep.join(xs)\<close>\<close>
  "py_join sep [] = []"
| "py_join sep [x] = x"
| "py_join sep (x # y # ys) = x @ sep @ py_join sep (y # ys)"

fun replace_scan :: "string \<Rightarrow> string \<Rightarrow> nat \<Rightarrow> string \<Rightarrow> string" where
  "replace_scan old new k [] = []"
| "replace_scan old new (Suc k) (c # cs) = replace_scan old new k cs"
| "replace_scan old new 0 (c # cs) =
     (if startswith (c # cs) old then new @ replace_scan old new (length old - 1) cs
      else c # replace_scan old new 0 cs)"

definition py_replace :: "string \<Rightarrow> string \<Rightarrow> string \<Rightarrow> string" where
  \<comment> \<open>\<open>py_replace old new s\<close> is \<open>s.replace(old, new)\<close> for a non-empty \<open>old\<close>\<close>
  "py_replace old new s = replace_scan old new 0 s"

abbreviation NL :: char where
  "NL \<equiv> CHR 0x0A"

section \<open>Retry-wrapped completion client (utils/llm\_backoff.py)\<close>

definition RETRYABLE_DEFAULT :: "string list" where
  "RETRYABLE_DEFAULT = [''rate limit'', ''timeout'', ''overloaded'', ''429'']"

definition is_retryable_error :: "string \<Rightarrow> string \<Rightarrow> bool" where
  \<comment> \<open>\<open>extra\<close> is the value of the environment variable
      \<open>LLM_RETRYABLE_ERROR_SUBSTRINGS\<close> (the empty string when unset); \<open>err\<close> is
      \<open>str(err)\<close>\<close>
  "is_retryable_error extra err =
     (let txt = py_lower err;
          tokens = map (\<lambda>t. py_lower (py_strip t))
                     (filter (\<lambda>t. py_strip t \<noteq> []) (py_split '','' extra))
      in list_ex (\<lambda>key. py_in key txt) (RETRYABLE_DEFAULT @ tokens))"

datatype retry_exn =
  BackendError string  \<comment> \<open>the exception of \<open>llm.invoke\<close>, by its text\<close>
| OverflowError  \<comment> \<open>from the conversion of \<open>2 ** (attempt - 1)\<close> to a float\<close>
| ValueError  \<comment> \<open>from \<open>time.sleep\<close> on a negative delay\<close>
| SleepRangeError  \<comment> \<open>from \<open>time.sleep\<close> on a delay the platform cannot represent\<close>

text \<open>
  The completion backend is an oracle: \<open>llm i\<close> is what the \<open>i\<close>-th call of
  \<open>llm.invoke\<close> (counted from 0) does, \<open>Inl e\<close> when it raises an exception whose text
  is \<open>e\<close>, \<open>Inr r\<close> when it returns \<open>r\<close>. \<open>jitter i\<close> is the value that
  \<open>random.uniform(0.8, 1.3)\<close> draws after the \<open>i\<close>-th call. \<open>base\<close> and \<open>max_backoff\<close>
  are the finite floats read from the environment, taken as the real numbers they
  denote; the rounding of the float operations is not modelled. \<open>sleep_max\<close> is the
  longest delay the platform's \<open>time.sleep\<close> accepts.

  The loop state is the source's \<open>attempt\<close> and the number of calls made so far; the
  result is the total number of calls and the outcome, \<open>Inl x\<close> when the exception \<open>x\<close>
  leaves the function: the backend's, re-raised, or one that the handler itself raises
  while it computes the delay and sleeps.
\<close>

definition backoff_delay :: "real \<Rightarrow> real \<Rightarrow> int \<Rightarrow> retry_exn + real" where
  \<comment> \<open>\<open>min(max_backoff, base * (2 ** (attempt - 1)))\<close>, for \<open>attempt \<ge> 1\<close>: the integer
      power is converted to a float for the product, which raises from \<open>2 ** 1024\<close> on\<close>
  "backoff_delay base max_backoff attempt =
     (if attempt - 1 \<ge> 1024 then Inl OverflowError
      else Inr (min max_backoff (base * 2 ^ nat (attempt - 1))))"

definition sleep :: "real \<Rightarrow> real \<Rightarrow> retry_exn option" where
  \<comment> \<open>\<open>time.sleep(delay)\<close>: the exception it raises, if any\<close>
  "sleep sleep_max delay =
     (if delay < 0 then Some ValueError
      else if delay > sleep_max then Some SleepRangeError
      else None)"

function invoke_loop ::
  "int \<Rightarrow> real \<Rightarrow> real \<Rightarrow> real \<Rightarrow> string \<Rightarrow> (nat \<Rightarrow> real) \<Rightarrow> (nat \<Rightarrow> string + 'r)
     \<Rightarrow> int \<Rightarrow> nat \<Rightarrow> nat \<times> (retry_exn + 'r)" where
  "invoke_loop max_retries base max_backoff sleep_max extra jitter llm attempt calls =
     (case llm calls of
        Inr r \<Rightarrow> (Suc calls, Inr r)
      | Inl e \<Rightarrow>
          (let attempt' = attempt + 1
           in if attempt' > max_retries \<or> \<not> is_retryable_error extra e
              then (Suc calls, Inl (BackendError e))
              else
                (case backoff_delay base max_backoff attempt' of
                   Inl x \<Rightarrow> (Suc calls, Inl x)
                 | Inr delay \<Rightarrow>
                     (case sleep sleep_max (delay * jitter calls) of
                        Some x \<Rightarrow> (Suc calls, Inl x)
                      | None \<Rightarrow>
                          invoke_loop max_retries base max_backoff sleep_max extra jitter llm
                            attempt' (Suc calls)))))"
  by pat_completeness auto
termination
  by (relation "measure (\<lambda>(m, b, mb, sm, x, j, l, a, c). nat (m + 1 - a))") auto

declare invoke_loop.simps [simp del]

definition invoke_with_retry ::
  "int \<Rightarrow> real \<Rightarrow> real \<Rightarrow> real \<Rightarrow> string \<Rightarrow> (nat \<Rightarrow> real) \<Rightarrow> (nat \<Rightarrow> string + 'r)
     \<Rightarrow> nat \<times> (retry_exn + 'r)" where
  \<comment> \<open>\<open>max_retries\<close> is \<open>int(os.getenv("LLM_MAX_RETRIES", "3"))\<close>, \<open>base\<close> is
      \<open>float(os.getenv("LLM_BASE_BACKOFF_SECONDS", "1"))\<close> and \<open>max_backoff\<close> is
      \<open>float(os.getenv("LLM_MAX_BACKOFF_SECONDS", "10"))\<close>\<close>
  "invoke_with_retry max_retries base max_backoff sleep_max extra jitter llm =
     invoke_loop max_retries base max_backoff sleep_max extra jitter llm 0 0"

definition always_rate_limited :: "nat \<Rightarrow> string + string" where
  \<comment> \<open>a backend every call of which fails with a rate-limit error\<close>
  "always_rate_limited i = Inl ''Error code: 429 - Rate limit reached''"

definition no_jitter :: "nat \<Rightarrow> real" where
  \<comment> \<open>every draw of the jitter factor is 1\<close>
  "no_jitter i = 1"

section \<open>Markdown section model (nodes/document\_generator\_node.py)\<close>





































section \<open>Section patch merger (nodes/document\_generator\_node.py)\<close>

definition merge_changelog :: "string \<Rightarrow> string \<Rightarrow> string" where
  "merge_changelog old_content new_entry =
     (if new_entry = [] \<or> py_in ''[NO_CHANGE]'' new_entry then old_content
      else if py_strip old_content = [] then new_entry
      else py_rstrip old_content @ [NL] @ new_entry)"

text \<open>
  The regular expressions of \<open>_merge_section_changes\<close>, as matchers. A matcher takes
  the text from the position the engine tries and returns the groups and the length of
  the match, or \<open>None\<close> when the expression does not match there; a scan tries the
  positions from left to right and resumes after each match, as \<open>findall\<close> and \<open>sub\<close>
  do. Every match below is non-empty.
\<close>

fun lazy_until_bracket :: "string \<Rightarrow> string" where
  \<comment> \<open>\<open>([^\[]*?)(?=\[|$)\<close>: the shortest run of characters other than \<open>[\<close> that ends
      before a \<open>[\<close>, at the end of the text, or before a newline that ends the text
      (where \<open>$\<close> matches without \<open>MULTILINE\<close>)\<close>
  "lazy_until_bracket [] = []"
| "lazy_until_bracket (c # cs) =
     (if c = CHR ''['' \<or> (c = NL \<and> cs = []) then [] else c # lazy_until_bracket cs)"

definition match_update :: "string \<Rightarrow> (string \<times> string \<times> nat) option" where
  \<comment> \<open>\<open>\[UPDATE:\s*([^\]]+)\]\s*\n*([^\[]*?)(?=\[|$)\<close> with \<open>DOTALL\<close>. \<open>inner\<close> is the
      text between \<open>[UPDATE:\<close> and the first \<open>]\<close>. The greedy \<open>\s*\<close> takes its leading
      white space but gives the last character back when nothing else is left for the
      group, which needs one character. After the \<open>]\<close>, \<open>\s*\<close> takes all white space
      and leaves none to \<open>\n*\<close>.\<close>
  "match_update s =
     (if \<not> startswith s ''[UPDATE:'' then None
      else let r = drop 8 s;
               inner = takeWhile (\<lambda>c. c \<noteq> CHR '']'') r;
               after = dropWhile (\<lambda>c. c \<noteq> CHR '']'') r
           in if after = [] \<or> inner = [] then None
              else let g1 = (if dropWhile py_isspace inner = [] then [last inner]
                             else dropWhile py_isspace inner);
                       u = tl after;
                       ws = takeWhile py_isspace u;
                       g2 = lazy_until_bracket (dropWhile py_isspace u)
                   in Some (g1, g2, 8 + length inner + 1 + length ws + length g2))"

fun findall_update :: "nat \<Rightarrow> string \<Rightarrow> (string \<times> string) list" where
  \<comment> \<open>\<open>update_pattern.findall(changes)\<close> is \<open>findall_update 0 changes\<close>\<close>
  "findall_update k [] = []"
| "findall_update (Suc k) (c # cs) = findall_update k cs"
| "findall_update 0 (c # cs) =
     (case match_update (c # cs) of
        None \<Rightarrow> findall_update 0 cs
      | Some (g1, g2, n) \<Rightarrow> (g1, g2) # findall_update (n - 1) cs)"

definition match_add :: "string \<Rightarrow> (string \<times> nat) option" where
  \<comment> \<open>\<open>\[ADD\]\s*\n*([^\[]*?)(?=\[|$)\<close> with \<open>DOTALL\<close>\<close>
  "match_add s =
     (if \<not> startswith s ''[ADD]'' then None
      else let u = drop 5 s;
               ws = takeWhile py_isspace u;
               g = lazy_until_bracket (dropWhile py_isspace u)
           in Some (g, 5 + length ws + length g))"

fun findall_add :: "nat \<Rightarrow> string \<Rightarrow> string list" where
  \<comment> \<open>\<open>add_pattern.findall(changes)\<close> is \<open>findall_add 0 changes\<close>\<close>
  "findall_add k [] = []"
| "findall_add (Suc k) (c # cs) = findall_add k cs"
| "findall_add 0 (c # cs) =
     (case match_add (c # cs) of
        None \<Rightarrow> findall_add 0 cs
      | Some (g, n) \<Rightarrow> g # findall_add (n - 1) cs)"

definition match_update_marker :: "string \<Rightarrow> nat option" where
  \<comment> \<open>\<open>\[UPDATE:[^\]]*\]\<close>: the length of the match\<close>
  "match_update_marker s =
     (if \<not> startswith s ''[UPDATE:'' then None
      else let r = drop 8 s
           in if dropWhile (\<lambda>c. c \<noteq> CHR '']'') r = [] then None
              else Some (8 + length (takeWhile (\<lambda>c. c \<noteq> CHR '']'') r) + 1))"

fun sub_update_marker :: "nat \<Rightarrow> string \<Rightarrow> string" where
  \<comment> \<open>\<open>re.sub(r'\[UPDATE:[^\]]*\]', '', s)\<close> is \<open>sub_update_marker 0 s\<close>\<close>
  "sub_update_marker k [] = []"
| "sub_update_marker (Suc k) (c # cs) = sub_update_marker k cs"
| "sub_update_marker 0 (c # cs) =
     (case match_update_marker (c # cs) of
        None \<Rightarrow> c # sub_update_marker 0 cs
      | Some n \<Rightarrow> sub_update_marker (n - 1) cs)"

fun replace_first :: "('a \<Rightarrow> bool) \<Rightarrow> 'a \<Rightarrow> 'a list \<Rightarrow> 'a list option" where
  \<comment> \<open>the loop \<open>for i, x in enumerate(xs): if P(x): xs[i] = y; found = True; break\<close>:
      the updated list, or \<open>None\<close> when \<open>found\<close> stays \<open>False\<close>\<close>
  "replace_first P y [] = None"
| "replace_first P y (x # xs) =
     (if P x then Some (y # xs) else map_option ((#) x) (replace_first P y xs))"

definition apply_update :: "string \<Rightarrow> string \<times> string \<Rightarrow> string" where
  \<comment> \<open>one round of the loop over the \<open>[UPDATE: ...]\<close> matches, from \<open>result\<close> to the
      new \<open>result\<close>\<close>
  "apply_update result m =
     (let snippet = py_strip (fst m);
          new_text = py_strip (snd m)
      in if new_text = [] then result
         else let snippet_key = (if length snippet > 30 then take 30 snippet else snippet);
                  hit = (\<lambda>unit. py_in snippet_key unit \<or> py_in snippet unit)
              in case replace_first hit new_text (py_split [NL] result) of
                   Some lines \<Rightarrow> py_join [NL] lines
                 | None \<Rightarrow>
                     (case replace_first hit new_text (py_split [NL, NL] result) of
                        Some paragraphs \<Rightarrow> py_join [NL, NL] paragraphs
                      | None \<Rightarrow> py_rstrip result @ [NL, NL] @ new_text))"

definition apply_add :: "string \<Rightarrow> string \<Rightarrow> string" where
  \<comment> \<open>one round of the loop over the \<open>[ADD]\<close> matches\<close>
  "apply_add result add_content =
     (let new_text = py_strip add_content
      in if new_text \<noteq> [] then py_rstrip result @ [NL, NL] @ new_text else result)"

definition merge_section_changes :: "string \<Rightarrow> string \<Rightarrow> string" where
  "merge_section_changes old_content changes =
     (if changes = [] \<or> py_in ''[NO_CHANGE]'' changes then old_content
      else if py_strip old_content = [] then
        (let cleaned = py_strip (py_replace ''[UPDATE:'' [] (py_replace ''[ADD]'' [] changes))
         in py_strip (sub_update_marker 0 cleaned))
      else
        (let result = foldl apply_update old_content (findall_update 0 changes);
             result = foldl apply_add result (findall_add 0 changes)
         in py_strip result))"

definition merge_generated :: "string \<Rightarrow> string \<Rightarrow> string \<Rightarrow> string" where
  \<comment> \<open>the dispatch that ends \<open>_update_section_llm\<close>: \<open>generated\<close> is the stripped text
      the completion returned for the section\<close>
  "merge_generated section_key old_text generated =
     (if section_key = ''changelog'' then merge_changelog old_text generated
      else merge_section_changes old_text generated)"

definition line_count :: "string \<Rightarrow> nat" where
  \<comment> \<open>the number of lines of a body, \<open>len(body.split('\n'))\<close>\<close>
  "line_count body = length (py_split [NL] body)"

section \<open>Diff file matcher (nodes/change\_analyzer\_node.py)\<close>

text \<open>
  A \<open>dict\<close> whose iteration order matters is an association list in insertion order;
  \<open>map_of\<close> is the lookup.
\<close>

definition norm_name :: "string \<Rightarrow> string" where
  \<comment> \<open>\<open>filename.strip().replace('\\', '/')\<close>\<close>
  "norm_name filename = py_replace [CHR 0x5C] ''/'' (py_strip filename)"

fun suffix_match_loop :: "string \<Rightarrow> (string \<times> string) list \<Rightarrow> string" where
  \<comment> \<open>the loop over \<open>diff_map.items()\<close> and the \<open>return ""\<close> after it\<close>
  "suffix_match_loop nm [] = []"
| "suffix_match_loop nm ((key, content) # items) =
     (if endswith key nm \<or> endswith nm key then content else suffix_match_loop nm items)"

definition find_diff_for_file :: "string \<Rightarrow> (string \<times> string) list \<Rightarrow> string" where
  "find_diff_for_file filename diff_map =
     (case map_of diff_map filename of
        Some block \<Rightarrow> block
      | None \<Rightarrow>
          (case map_of diff_map (''a/'' @ filename) of
             Some block \<Rightarrow> block
           | None \<Rightarrow> suffix_match_loop (norm_name filename) diff_map))"

text \<open>
  Rule (3) in the words of the specification, apart from the code's own helpers: the
  query without the white space around it, its backslashes turned into \<open>/\<close>, and the
  suffix relation of the list library.
\<close>

definition query_core :: "string \<Rightarrow> string \<Rightarrow> bool" where
  \<comment> \<open>\<open>core\<close> is \<open>filename\<close> without the white space around it\<close>
  "query_core filename core =
     (\<exists>l r. filename = l @ core @ r \<and> list_all py_isspace l \<and> list_all py_isspace r \<and>
            (core = [] \<or> (\<not> py_isspace (hd core) \<and> \<not> py_isspace (last core))))"

definition slashes :: "string \<Rightarrow> string" where
  \<comment> \<open>path separators normalized to \<open>/\<close>\<close>
  "slashes s = map (\<lambda>c. if c = CHR 0x5C then CHR ''/'' else c) s"

definition suffix_hit :: "string \<Rightarrow> string \<Rightarrow> bool" where
  \<comment> \<open>the key is a suffix of the query \<open>q\<close> with normalized separators, or the other
      way round\<close>
  "suffix_hit q key = (suffix key (slashes q) \<or> suffix (slashes q) key)"

definition example_windows_map :: "(string \<times> string) list" where
  "example_windows_map = [(''backend/main.py'', ''diff --git a/backend/main.py b/backend/main.py'')]"

section \<open>Repository snapshot fetcher (nodes/repository\_analyzer\_node.py)\<close>

fun branches_to_try_loop :: "string list \<Rightarrow> string list \<Rightarrow> string list" where
  \<comment> \<open>\<open>for b in candidates: if b not in branches_to_try: branches_to_try.append(b)\<close>\<close>
  "branches_to_try_loop acc [] = acc"
| "branches_to_try_loop acc (b # bs) =
     branches_to_try_loop (if b \<in> set acc then acc else acc @ [b]) bs"

definition branches_to_try :: "string \<Rightarrow> string list" where
  "branches_to_try default_branch =
     branches_to_try_loop [] [default_branch, ''main'', ''master'']"

text \<open>
  The network and the archive are oracles. \<open>get branch\<close> is what the archive request
  for the branch does: \<open>None\<close> when \<open>client.get\<close> raises, \<open>Some status\<close> when it answers
  with that status code. \<open>extract branch\<close> is what saving and unpacking a 200 answer
  does: \<open>None\<close> when it raises, \<open>Some dirs\<close> with the entries of the extraction
  directory otherwise. The result is the list of branches requested, in order, and the
  returned path (\<open>None\<close> for the source's \<open>return None\<close>).
\<close>

fun download_loop ::
  "(string \<Rightarrow> int option) \<Rightarrow> (string \<Rightarrow> string list option) \<Rightarrow> string list
     \<Rightarrow> string list \<times> string option" where
  "download_loop get extract [] = ([], None)"
| "download_loop get extract (branch # rest) =
     (let continue = (branch # fst (download_loop get extract rest),
                      snd (download_loop get extract rest))
      in case get branch of
           None \<Rightarrow> continue
         | Some status \<Rightarrow>
             if status = 200 then
               (case extract branch of
                  None \<Rightarrow> continue
                | Some [] \<Rightarrow> ([branch], None)
                | Some (actual_repo_path # _) \<Rightarrow> ([branch], Some actual_repo_path))
             else if status = 404 then continue
             else if status \<in> {301, 302, 303, 307, 308} then continue
             else if status = 403 then ([branch], None)
             else continue)"

definition download_repository_zip_sync ::
  "string \<Rightarrow> (string \<Rightarrow> int option) \<Rightarrow> (string \<Rightarrow> string list option)
     \<Rightarrow> string list \<times> string option" where
  \<comment> \<open>\<open>default_branch\<close> is the branch the metadata lookup gave, \<open>main\<close> when it failed\<close>
  "download_repository_zip_sync default_branch get extract =
     download_loop get extract (branches_to_try default_branch)"

definition example_get :: "string \<Rightarrow> int option" where
  \<comment> \<open>a repository whose \<open>develop\<close> archive is missing and whose \<open>main\<close> archive is
      forbidden\<close>
  "example_get branch =
     (if branch = ''develop'' then Some 404 else if branch = ''main'' then Some 403
      else Some 200)"

definition example_extract :: "string \<Rightarrow> string list option" where
  "example_extract branch = Some [''repo-'' @ branch]"

definition example_diff_map :: "(string \<times> string) list" where
  "example_diff_map =
     [(''backend/main.py'', ''diff --git a/backend/main.py b/backend/main.py''),
      (''lib/util.py'', ''diff --git a/lib/util.py b/lib/util.py''),
      (''a/setup.py'', ''diff --git a/a/setup.py b/a/setup.py'')]"

section \<open>Concurrent fan-outs of the per-file summarization\<close>

text \<open>
  A fan-out submits its tasks to a \<open>ThreadPoolExecutor\<close> in input order and collects
  them with \<open>as_completed\<close>. The pool is an oracle: \<open>completion\<close> lists the indices of
  the submitted tasks (from 0, in submission order) in the order in which they finish, a
  permutation of the indices. The size of the pool decides which completion orders can
  occur and nothing else.
\<close>

definition as_completed :: "nat list \<Rightarrow> 'a list \<Rightarrow> 'a list" where
  \<comment> \<open>the results in the order in which \<open>as_completed(futures)\<close> yields the futures\<close>
  "as_completed completion futures = map (\<lambda>j. futures ! j) completion"

definition is_completion_order :: "nat list \<Rightarrow> nat \<Rightarrow> bool" where
  \<comment> \<open>\<open>completion\<close> is a completion order of \<open>n\<close> submitted tasks\<close>
  "is_completion_order completion n = (distinct completion \<and> set completion = {0..<n})"

subsection \<open>nodes/file\_summarizer\_node.py\<close>

definition file_summarizer_fanout ::
  "nat list \<Rightarrow> int \<Rightarrow> bool \<Rightarrow> (nat \<Rightarrow> 'f \<Rightarrow> 's) \<Rightarrow> 'f list \<Rightarrow> 's list" where
  \<comment> \<open>the value of \<open>file_summaries\<close> after the fan-out of \<open>file_summarizer_node\<close>.
      \<open>max_concurrency\<close> is \<open>int(os.getenv("FILE_SUMMARIZER_MAX_CONCURRENCY", "4"))\<close>;
      \<open>summarizer idx file_info\<close> is what the summarizer strategy returns for the file
      at position \<open>idx\<close> (from 1, as \<open>enumerate(parsed_files, 1)\<close> counts)\<close>
  "file_summarizer_fanout completion max_concurrency use_mock summarizer parsed_files =
     (let max_workers = max 1 max_concurrency;
          tasks = zip [1..<Suc (length parsed_files)] parsed_files
      in if length parsed_files > 1 \<and> max_workers > 1 \<and> \<not> use_mock
         then as_completed completion (map (\<lambda>(idx, f). summarizer idx f) tasks)
         else map (\<lambda>(idx, f). summarizer idx f) tasks)"

definition example_summarizer :: "nat \<Rightarrow> string \<Rightarrow> string" where
  "example_summarizer idx file_info = ''summary of '' @ file_info"

subsection \<open>nodes/change\_analyzer\_node.py\<close>

datatype summary_text =
  LowPriorityText string string  \<comment> \<open>\<open>f"{f} ({change_type})"\<close>\<close>
| NoDiffText string  \<comment> \<open>the fixed text for a file without a diff block, built from \<open>file\<close>\<close>
| FailedText string string
    \<comment> \<open>the fixed text for a failed completion, built from \<open>file\<close> and \<open>change_type\<close>\<close>
| CompletionText string  \<comment> \<open>the text the completion returned\<close>

record file_summary =
  file_name :: string  \<comment> \<open>the key \<open>file\<close>\<close>
  change_type :: string
  summary :: summary_text
  priority :: string

definition get_file_priority :: "string \<Rightarrow> string" where
  "get_file_priority filepath =
     (let lower = py_lower filepath;
          any_in = (\<lambda>xs. list_ex (\<lambda>x. py_in x lower) xs)
      in if any_in [''router'', ''endpoint'', ''controller'', ''api''] then ''high''
         else if any_in [''schema'', ''model'', ''entity''] then ''high''
         else if any_in [''service'', ''handler'', ''manager''] then ''high''
         else if any_in [''auth'', ''security'', ''permission''] then ''high''
         else if any_in [''database'', ''migration'', ''config''] then ''high''
         else if any_in [''util'', ''helper'', ''middleware''] then ''medium''
         else if any_in [''test'', ''spec''] then ''medium''
         else ''low'')"

definition detect_change_type :: "string \<Rightarrow> string" where
  "detect_change_type file_diff =
     (if file_diff = [] then ''modified''
      else if py_in ''+++ /dev/null'' file_diff then ''deleted''
      else if py_in ''--- /dev/null'' file_diff then ''added''
      else ''modified'')"

fun classify_loop ::
  "(string \<times> string) list \<Rightarrow> file_summary list \<Rightarrow> (string \<times> string) list \<Rightarrow> string list
     \<Rightarrow> file_summary list \<times> (string \<times> string) list" where
  \<comment> \<open>step 3 of \<open>_generate_file_summaries\<close>: the loop that summarizes the low-priority
      files at once and queues the others in \<open>high_medium\<close>\<close>
  "classify_loop diff_map summaries high_medium [] = (summaries, high_medium)"
| "classify_loop diff_map summaries high_medium (f # fs) =
     (let p = get_file_priority f
      in if p = ''low'' then
           (let file_diff = find_diff_for_file f diff_map;
                ct = detect_change_type file_diff
            in classify_loop diff_map
                 (summaries @ [\<lparr>file_name = f, change_type = ct,
                                 summary = LowPriorityText f ct, priority = p\<rparr>])
                 high_medium fs)
         else classify_loop diff_map summaries (high_medium @ [(f, p)]) fs)"

definition summarize ::
  "(string \<times> string) list \<Rightarrow> (string \<Rightarrow> string \<Rightarrow> string + string) \<Rightarrow> string \<Rightarrow> string
     \<Rightarrow> file_summary" where
  \<comment> \<open>the worker \<open>_summarize\<close>. \<open>complete_call file file_diff\<close> is what the retry-wrapped
      completion call on the prompt built from the two does in this task: \<open>Inr text\<close>
      when it returns, \<open>Inl e\<close> when it raises\<close>
  "summarize diff_map complete_call file prio =
     (let file_diff = find_diff_for_file file diff_map;
          ct = detect_change_type file_diff
      in if file_diff = [] then
           \<lparr>file_name = file, change_type = ct, summary = NoDiffText file, priority = prio\<rparr>
         else
           (let text = (case complete_call file file_diff of
                          Inr t \<Rightarrow> CompletionText t
                        | Inl e \<Rightarrow> FailedText file ct)
            in \<lparr>file_name = file, change_type = ct, summary = text, priority = prio\<rparr>))"

definition order_map_of :: "file_summary list \<Rightarrow> (string \<rightharpoonup> file_summary)" where
  \<comment> \<open>\<open>{s["file"]: s for s in summaries}\<close>: a later summary of a file replaces an
      earlier one\<close>
  "order_map_of summaries = foldl (\<lambda>m s. m(file_name s \<mapsto> s)) Map.empty summaries"

definition generate_file_summaries_llm ::
  "nat list \<Rightarrow> (nat \<Rightarrow> string \<Rightarrow> string \<Rightarrow> string + string) \<Rightarrow> (string \<times> string) list
     \<Rightarrow> string list \<Rightarrow> file_summary list" where
  \<comment> \<open>steps 3 to 6 of \<open>_generate_file_summaries\<close>, the path with a completion client;
      \<open>diff_map\<close> is the parsed diff and \<open>complete_call j\<close> the completion oracle of the
      \<open>j\<close>-th submitted task\<close>
  "generate_file_summaries_llm completion complete_call diff_map changed_files =
     (let (summaries, high_medium) = classify_loop diff_map [] [] changed_files;
          futures = map (\<lambda>(j, (f, p)). summarize diff_map (complete_call j) f p)
                      (zip [0..<length high_medium] high_medium);
          summaries = (if high_medium \<noteq> [] then summaries @ as_completed completion futures
                       else summaries);
          order_map = order_map_of summaries
      in List.map_filter order_map changed_files)"

section \<open>Properties of the retry loop\<close>

lemmas retry_eval_defs =
  is_retryable_error_def RETRYABLE_DEFAULT_def py_lower_def py_lower_char_def
  py_split_def py_strip_def py_lstrip_def py_rstrip_def

lemma retry_delay_ok:
  assumes "attempt \<le> 1024" and "0 \<le> base" and "0 \<le> max_backoff"
    and "max_backoff * 1.3 \<le> sleep_max" and "0.8 \<le> j" and "j \<le> 1.3"
  shows "\<exists>delay. backoff_delay base max_backoff attempt = Inr delay \<and>
           sleep sleep_max (delay * j) = None"
proof -
  let ?d = "min max_backoff (base * 2 ^ nat (attempt - 1))"
  have d0: "0 \<le> ?d" using assms(2,3) by simp
  have d1: "?d \<le> max_backoff" by simp
  have j0: "0 \<le> j" using assms(5) by simp
  have "0 \<le> ?d * j" using d0 j0 by simp
  moreover have "?d * j \<le> max_backoff * 1.3"
    using d0 d1 j0 assms(6) by (intro mult_mono) simp_all
  ultimately have "sleep sleep_max (?d * j) = None"
    using assms(4) by (simp add: sleep_def)
  moreover have "backoff_delay base max_backoff attempt = Inr ?d"
    using assms(1) by (simp add: backoff_delay_def)
  ultimately show ?thesis by blast
qed

lemma invoke_loop_all_fail:
  assumes "\<forall>i. calls \<le> i \<and> i \<le> calls + nat (max_retries - attempt) \<longrightarrow>
             (\<exists>e. llm i = Inl e \<and> is_retryable_error extra e)"
    and "attempt \<le> max_retries" and "max_retries \<le> 1024"
    and "0 \<le> base" and "0 \<le> max_backoff" and "max_backoff * 1.3 \<le> sleep_max"
    and "\<forall>i. 0.8 \<le> jitter i \<and> jitter i \<le> 1.3"
  shows "\<exists>e. llm (calls + nat (max_retries - attempt)) = Inl e \<and>
           invoke_loop max_retries base max_backoff sleep_max extra jitter llm attempt calls
             = (calls + nat (max_retries - attempt) + 1, Inl (BackendError e))"
  using assms
proof (induction max_retries base max_backoff sleep_max extra jitter llm attempt calls
    rule: invoke_loop.induct)
  case (1 max_retries base max_backoff sleep_max extra jitter llm attempt calls)
  from "1.prems"(1) obtain e where e: "llm calls = Inl e" "is_retryable_error extra e"
    by force
  show ?case
  proof (cases "attempt + 1 > max_retries")
    case True
    with "1.prems"(2) have "attempt = max_retries" by simp
    with e True show ?thesis by (subst invoke_loop.simps) simp
  next
    case False
    have "attempt + 1 \<le> 1024" using False "1.prems"(3) by simp
    then obtain delay where d: "backoff_delay base max_backoff (attempt + 1) = Inr delay"
      "sleep sleep_max (delay * jitter calls) = None"
      using retry_delay_ok [of "attempt + 1" base max_backoff sleep_max "jitter calls"] "1.prems"(4-7)
      by blast
    have eq: "Suc calls + nat (max_retries - (attempt + 1)) = calls + nat (max_retries - attempt)"
      using False by simp
    have "\<exists>e'. llm (Suc calls + nat (max_retries - (attempt + 1))) = Inl e' \<and>
          invoke_loop max_retries base max_backoff sleep_max extra jitter llm (attempt + 1) (Suc calls)
          = (Suc calls + nat (max_retries - (attempt + 1)) + 1, Inl (BackendError e'))"
    proof (rule "1.IH" [OF e(1) refl _ d(1) d(2)])
      show "\<not> (max_retries < attempt + 1 \<or> \<not> is_retryable_error extra e)"
        using False e(2) by simp
      show "\<forall>i. Suc calls \<le> i \<and> i \<le> Suc calls + nat (max_retries - (attempt + 1)) \<longrightarrow>
             (\<exists>e. llm i = Inl e \<and> is_retryable_error extra e)"
        using "1.prems"(1) eq by auto
      show "attempt + 1 \<le> max_retries" using False by simp
    qed (use "1.prems" in simp_all)
    then obtain e' where e': "llm (calls + nat (max_retries - attempt)) = Inl e'"
      "invoke_loop max_retries base max_backoff sleep_max extra jitter llm (attempt + 1) (Suc calls)
          = (calls + nat (max_retries - attempt) + 1, Inl (BackendError e'))"
      unfolding eq by blast
    have "invoke_loop max_retries base max_backoff sleep_max extra jitter llm attempt calls
          = invoke_loop max_retries base max_backoff sleep_max extra jitter llm (attempt + 1) (Suc calls)"
      using e False d by (subst invoke_loop.simps) simp
    with e' show ?thesis by simp
  qed
qed

lemma invoke_loop_overflow:
  assumes "\<forall>i. calls \<le> i \<and> i \<le> calls + nat (1024 - attempt) \<longrightarrow>
             (\<exists>e. llm i = Inl e \<and> is_retryable_error extra e)"
    and "attempt \<le> 1024" and "1024 < max_retries"
    and "0 \<le> base" and "0 \<le> max_backoff" and "max_backoff * 1.3 \<le> sleep_max"
    and "\<forall>i. 0.8 \<le> jitter i \<and> jitter i \<le> 1.3"
  shows "invoke_loop max_retries base max_backoff sleep_max extra jitter llm attempt calls
             = (calls + nat (1024 - attempt) + 1, Inl OverflowError)"
  using assms
proof (induction max_retries base max_backoff sleep_max extra jitter llm attempt calls
    rule: invoke_loop.induct)
  case (1 max_retries base max_backoff sleep_max extra jitter llm attempt calls)
  from "1.prems"(1) obtain e where e: "llm calls = Inl e" "is_retryable_error extra e"
    by force
  have le: "\<not> max_retries < attempt + 1" using "1.prems"(2,3) by simp
  show ?case
  proof (cases "attempt = 1024")
    case True
    then have "backoff_delay base max_backoff (attempt + 1) = Inl OverflowError"
      by (simp add: backoff_delay_def)
    with e le True show ?thesis by (subst invoke_loop.simps) simp
  next
    case False
    then have lt: "attempt + 1 \<le> 1024" using "1.prems"(2) by simp
    then obtain delay where d: "backoff_delay base max_backoff (attempt + 1) = Inr delay"
      "sleep sleep_max (delay * jitter calls) = None"
      using retry_delay_ok [of "attempt + 1" base max_backoff sleep_max "jitter calls"] "1.prems"(4-7)
      by blast
    have eq: "Suc calls + nat (1024 - (attempt + 1)) = calls + nat (1024 - attempt)"
      using lt by simp
    have "invoke_loop max_retries base max_backoff sleep_max extra jitter llm (attempt + 1) (Suc calls)
          = (Suc calls + nat (1024 - (attempt + 1)) + 1, Inl OverflowError)"
    proof (rule "1.IH" [OF e(1) refl _ d(1) d(2)])
      show "\<not> (max_retries < attempt + 1 \<or> \<not> is_retryable_error extra e)"
        using le e(2) by simp
      show "\<forall>i. Suc calls \<le> i \<and> i \<le> Suc calls + nat (1024 - (attempt + 1)) \<longrightarrow>
             (\<exists>e. llm i = Inl e \<and> is_retryable_error extra e)"
        using "1.prems"(1) eq by auto
      show "attempt + 1 \<le> 1024" by (rule lt)
    qed (use "1.prems" in simp_all)
    moreover have "invoke_loop max_retries base max_backoff sleep_max extra jitter llm attempt calls
          = invoke_loop max_retries base max_backoff sleep_max extra jitter llm (attempt + 1) (Suc calls)"
      using e le d by (subst invoke_loop.simps) simp
    ultimately show ?thesis unfolding eq by simp
  qed
qed

lemma invoke_with_retry_overflow:
  assumes "1024 < max_retries"
    and "0 \<le> base" and "0 \<le> max_backoff" and "max_backoff * 1.3 \<le> sleep_max"
    and "\<forall>i. 0.8 \<le> jitter i \<and> jitter i \<le> 1.3"
    and "\<forall>i \<le> 1024. \<exists>e. llm i = Inl e \<and> is_retryable_error extra e"
  shows "invoke_with_retry max_retries base max_backoff sleep_max extra jitter llm
           = (1025, Inl OverflowError)"
proof -
  have "invoke_loop max_retries base max_backoff sleep_max extra jitter llm 0 0
             = (0 + nat (1024 - 0) + 1, Inl OverflowError)"
    by (rule invoke_loop_overflow) (use assms in auto)
  then show ?thesis by (simp add: invoke_with_retry_def)
qed

text \<open>
  C1, as stated, fails: with \<open>LLM_MAX_RETRIES = 3\<close>, the default backoff settings
  (base 1, ceiling 10) and a backend that fails with a rate-limit error on every call,
  the loop calls the backend 4 times, not 3, before it re-raises. The error text is
  transient (it contains \<open>429\<close> and, lowered, \<open>rate limit\<close>).
\<close>

theorem invoke_with_retry_three_calls_counterexample:
  "is_retryable_error '''' ''Error code: 429 - Rate limit reached'' \<and>
   invoke_with_retry 3 1 10 86400 '''' no_jitter always_rate_limited
     = (4, Inl (BackendError ''Error code: 429 - Rate limit reached'')) \<and>
   fst (invoke_with_retry 3 1 10 86400 '''' no_jitter always_rate_limited) \<noteq> 3"
  by (simp add: invoke_with_retry_def invoke_loop.simps always_rate_limited_def no_jitter_def
      backoff_delay_def sleep_def retry_eval_defs)

text \<open>
  C1 (amended): the configured number counts retries, not attempts. When the backend
  fails with a transient error on each of its first \<open>max_retries + 1\<close> calls, with
  \<open>0 \<le> max_retries \<le> 1024\<close> and backoff settings that are not negative and keep every
  delay within what \<open>time.sleep\<close> accepts, \<open>invoke_with_retry\<close> calls the backend
  exactly \<open>max_retries + 1\<close> times (4 times for the default 3) and then re-raises the
  error of the last call. (Beyond 1024 retries the handler itself fails first:
  \<open>invoke_with_retry_overflow\<close>.)
\<close>

theorem invoke_with_retry_exhausts:
  assumes "0 \<le> max_retries" and "max_retries \<le> 1024"
    and "0 \<le> base" and "0 \<le> max_backoff" and "max_backoff * 1.3 \<le> sleep_max"
    and "\<forall>i. 0.8 \<le> jitter i \<and> jitter i \<le> 1.3"
    and "\<forall>i \<le> nat max_retries. \<exists>e. llm i = Inl e \<and> is_retryable_error extra e"
  shows "\<exists>e. llm (nat max_retries) = Inl e \<and>
             invoke_with_retry max_retries base max_backoff sleep_max extra jitter llm
               = (nat max_retries + 1, Inl (BackendError e))"
proof -
  have "\<exists>e. llm (0 + nat (max_retries - 0)) = Inl e \<and>
           invoke_loop max_retries base max_backoff sleep_max extra jitter llm 0 0
             = (0 + nat (max_retries - 0) + 1, Inl (BackendError e))"
    by (rule invoke_loop_all_fail) (use assms in auto)
  then show ?thesis by (simp add: invoke_with_retry_def)
qed

theorem invoke_with_retry_exhausts_witness:
  "\<exists>e. always_rate_limited (nat 3) = Inl e \<and>
       invoke_with_retry 3 1 10 86400 '''' no_jitter always_rate_limited
         = (nat 3 + 1, Inl (BackendError e))"
proof (rule invoke_with_retry_exhausts)
  show "\<forall>i \<le> nat 3. \<exists>e. always_rate_limited i = Inl e \<and> is_retryable_error '''' e"
    by (simp add: always_rate_limited_def retry_eval_defs)
  show "\<forall>i. 0.8 \<le> no_jitter i \<and> no_jitter i \<le> 1.3"
    by (simp add: no_jitter_def)
qed simp_all

section \<open>Facts about the string helpers\<close>

lemmas str_defs =
  py_split_def py_strip_def py_lstrip_def py_rstrip_def py_isspace_def py_replace_def

lemma length_split_scan_char:
  "length (split_scan [d] 0 acc s) = Suc (length (filter (\<lambda>c. c = d) s))"
  by (induction s arbitrary: acc) auto

lemma line_count_newlines: "line_count s = Suc (length (filter (\<lambda>c. c = NL) s))"
  by (simp add: line_count_def py_split_def length_split_scan_char)

lemma line_count_prefix: "prefix xs ys \<Longrightarrow> line_count xs \<le> line_count ys"
  by (auto simp: prefix_def line_count_newlines)

lemma py_rstrip_prefix: "prefix (py_rstrip s) s"
proof -
  have "suffix (dropWhile py_isspace (rev s)) (rev s)"
    by (rule suffix_dropWhile)
  then show ?thesis
    by (simp add: py_rstrip_def suffix_to_prefix)
qed

lemma py_rstrip_append:
  "py_rstrip (a @ b) = (if \<forall>c \<in> set b. py_isspace c then py_rstrip a else a @ py_rstrip b)"
  by (simp add: py_rstrip_def dropWhile_append)

lemma py_rstrip_idem: "py_rstrip (py_rstrip s) = py_rstrip s"
  by (simp add: py_rstrip_def)

lemma py_rstrip_Nil_iff: "py_rstrip s = [] \<longleftrightarrow> (\<forall>c \<in> set s. py_isspace c)"
  by (simp add: py_rstrip_def dropWhile_eq_Nil_conv)

lemma py_strip_Nil_iff: "py_strip s = [] \<longleftrightarrow> (\<forall>c \<in> set s. py_isspace c)"
proof (cases "dropWhile py_isspace s")
  case Nil
  then have "\<forall>c \<in> set s. py_isspace c"
    by (simp only: dropWhile_eq_Nil_conv)
  moreover have "py_strip s = []"
    by (simp add: py_strip_def py_lstrip_def py_rstrip_def Nil)
  ultimately show ?thesis by simp
next
  case (Cons x xs)
  have "\<not> py_isspace (hd (dropWhile py_isspace s))"
    by (rule hd_dropWhile) (simp add: Cons)
  then have x: "\<not> py_isspace x" by (simp add: Cons)
  have "dropWhile py_isspace (rev (x # xs)) \<noteq> []"
    using x by (simp only: dropWhile_eq_Nil_conv) auto
  then have "py_strip s \<noteq> []"
    by (simp add: py_strip_def py_lstrip_def py_rstrip_def Cons)
  moreover have "\<not> (\<forall>c \<in> set s. py_isspace c)"
  proof
    assume "\<forall>c \<in> set s. py_isspace c"
    then have "dropWhile py_isspace s = []" by (simp only: dropWhile_eq_Nil_conv)
    with Cons show False by simp
  qed
  ultimately show ?thesis by simp
qed

lemma py_lstrip_head: "py_lstrip s = [] \<or> \<not> py_isspace (hd (py_lstrip s))"
  unfolding py_lstrip_def by (metis hd_dropWhile)

lemma py_rstrip_keeps_head:
  assumes "py_rstrip t \<noteq> []"
  shows "hd (py_rstrip t) = hd t"
proof -
  from py_rstrip_prefix [of t] obtain zs where "t = py_rstrip t @ zs"
    by (auto simp: prefix_def)
  then have "hd t = hd (py_rstrip t @ zs)" by simp
  also have "\<dots> = hd (py_rstrip t)" using assms by simp
  finally show ?thesis by simp
qed

lemma py_lstrip_id: "s = [] \<or> \<not> py_isspace (hd s) \<Longrightarrow> py_lstrip s = s"
  by (cases s) (auto simp: py_lstrip_def)

lemma py_strip_idem: "py_strip (py_strip s) = py_strip s"
proof -
  let ?t = "py_lstrip s"
  have "py_rstrip ?t = [] \<or> \<not> py_isspace (hd (py_rstrip ?t))"
    using py_lstrip_head [of s] py_rstrip_keeps_head [of ?t] by (metis py_rstrip_Nil_iff empty_iff list.set(1))
  then have "py_lstrip (py_rstrip ?t) = py_rstrip ?t" by (rule py_lstrip_id)
  then show ?thesis by (simp add: py_strip_def py_rstrip_idem)
qed

lemma py_strip_fixed_ends:
  assumes "py_strip s = s" and "s \<noteq> []"
  shows "\<not> py_isspace (hd s)" and "\<not> py_isspace (last s)"
proof -
  have l1: "length (py_rstrip (py_lstrip s)) \<le> length (py_lstrip s)"
    by (simp add: py_rstrip_def length_dropWhile_le order_trans [OF length_dropWhile_le])
  have l2: "length (py_lstrip s) \<le> length s"
    by (simp add: py_lstrip_def length_dropWhile_le)
  from assms(1) have "length (py_rstrip (py_lstrip s)) = length s"
    by (simp add: py_strip_def)
  with l1 l2 have "length (py_lstrip s) = length s" by simp
  then have ls: "py_lstrip s = s"
    unfolding py_lstrip_def
    by (metis append_eq_conv_conj append_self_conv2 length_0_conv length_append add_cancel_left_left takeWhile_dropWhile_id)
  with py_lstrip_head [of s] assms(2) show "\<not> py_isspace (hd s)" by simp
  from assms(1) ls have rs: "py_rstrip s = s" by (simp add: py_strip_def)
  then have "dropWhile py_isspace (rev s) = rev s"
    by (metis py_rstrip_def rev_rev_ident)
  moreover have "rev s \<noteq> []" using assms(2) by simp
  ultimately have "\<not> py_isspace (hd (rev s))"
    by (metis hd_dropWhile)
  then show "\<not> py_isspace (last s)" using assms(2) by (simp add: hd_rev)
qed

lemma py_strip_ends_fixed:
  assumes "s \<noteq> []" and "\<not> py_isspace (hd s)" and "\<not> py_isspace (last s)"
  shows "py_strip s = s"
proof -
  have "py_lstrip s = s" using assms(1,2) by (cases s) (simp_all add: py_lstrip_def)
  moreover have "dropWhile py_isspace (rev s) = rev s"
    using assms(1,3) by (cases "rev s") (simp_all add: last_rev [symmetric] hd_rev)
  ultimately show ?thesis by (simp add: py_strip_def py_rstrip_def)
qed

lemma py_strip_pad:
  assumes "\<forall>c \<in> set w1. py_isspace c" and "\<forall>c \<in> set w2. py_isspace c" and "py_strip s = s"
  shows "py_strip (w1 @ s @ w2) = s"
proof (cases "s = []")
  case True
  then show ?thesis using assms(1,2) by (auto simp: py_strip_Nil_iff)
next
  case False
  from py_strip_fixed_ends [OF assms(3) False]
  have h: "\<not> py_isspace (hd s)" and l: "\<not> py_isspace (last s)" .
  have "py_lstrip (w1 @ s @ w2) = dropWhile py_isspace (s @ w2)"
    using assms(1) by (simp add: py_lstrip_def dropWhile_append2)
  also have "\<dots> = s @ w2" using False h by (cases s) simp_all
  finally have ls: "py_lstrip (w1 @ s @ w2) = s @ w2" .
  have "py_rstrip (s @ w2) = py_rstrip s"
    using assms(2) by (simp add: py_rstrip_append)
  also have "\<dots> = s"
    using assms(3) False h by (metis py_lstrip_id py_strip_def)
  finally show ?thesis by (simp add: py_strip_def ls)
qed

section \<open>Properties of the markdown section model\<close>




























section \<open>Properties of the section patch merger\<close>

lemmas merge_defs =
  merge_section_changes_def merge_changelog_def merge_generated_def apply_update_def
  apply_add_def match_update_def match_add_def match_update_marker_def

lemma merge_changelog_step:
  assumes "p \<noteq> []" "\<not> py_in ''[NO_CHANGE]'' p"
  shows "prefix (py_rstrip old) (py_rstrip (merge_changelog old p))"
proof (cases "py_strip old = []")
  case True
  then have "py_rstrip old = []" by (simp add: py_strip_Nil_iff py_rstrip_Nil_iff)
  then show ?thesis by simp
next
  case False
  then have mc: "merge_changelog old p = py_rstrip old @ (NL # p)"
    using assms by (simp add: merge_changelog_def)
  have "py_rstrip (py_rstrip old @ (NL # p))
        = (if \<forall>c \<in> set (NL # p). py_isspace c then py_rstrip (py_rstrip old)
           else py_rstrip old @ py_rstrip (NL # p))"
    by (rule py_rstrip_append)
  then show ?thesis
    unfolding mc by (simp add: py_rstrip_idem)
qed

lemma merge_changelog_fold:
  assumes "\<forall>p \<in> set patches. p \<noteq> [] \<and> \<not> py_in ''[NO_CHANGE]'' p"
  shows "prefix (py_rstrip old) (py_rstrip (foldl merge_changelog old patches))"
  using assms
proof (induction patches arbitrary: old)
  case Nil
  then show ?case by simp
next
  case (Cons p ps)
  have "prefix (py_rstrip old) (py_rstrip (merge_changelog old p))"
    using Cons.prems by (intro merge_changelog_step) auto
  moreover have "prefix (py_rstrip (merge_changelog old p))
                   (py_rstrip (foldl merge_changelog (merge_changelog old p) ps))"
    using Cons.prems by (intro Cons.IH) auto
  ultimately show ?case by (auto intro: prefix_order.trans)
qed

text \<open>
  C5, as stated, fails: the merge right-strips the prior body before it appends (and
  returns the entry alone for a blank prior body), so a prior body that ends in blank
  lines loses them. Here the prior body has 4 lines and the result 2.
\<close>

lemma changelog_cex_merge:
  "merge_changelog (''- a'' @ [NL, NL, NL]) ''- b'' = ''- a'' @ [NL] @ ''- b''"
  by (simp add: merge_changelog_def str_defs)

theorem merge_changelog_line_count_counterexample:
  "''- b'' \<noteq> [] \<and> \<not> py_in ''[NO_CHANGE]'' ''- b'' \<and>
   line_count (''- a'' @ [NL, NL, NL]) = 4 \<and>
   line_count (merge_changelog (''- a'' @ [NL, NL, NL]) ''- b'') = 2"
  unfolding changelog_cex_merge by (simp add: line_count_newlines)

text \<open>
  C5 (amended): for every prior changelog body and every sequence of non-empty patch
  texts without \<open>[NO_CHANGE]\<close>, the result of applying the changelog merge to them in
  turn starts with the prior body stripped of its trailing white space (prior text is
  never edited), and so has at least as many lines as that stripped prior body; this is
  the prior body itself when it has no trailing white space.
\<close>

theorem merge_changelog_monotone:
  assumes "\<forall>p \<in> set patches. p \<noteq> [] \<and> \<not> py_in ''[NO_CHANGE]'' p"
  shows "prefix (py_rstrip old) (foldl merge_changelog old patches) \<and>
         line_count (py_rstrip old) \<le> line_count (foldl merge_changelog old patches)"
proof -
  have "prefix (py_rstrip old) (py_rstrip (foldl merge_changelog old patches))"
    using assms by (rule merge_changelog_fold)
  then have "prefix (py_rstrip old) (foldl merge_changelog old patches)"
    using py_rstrip_prefix prefix_order.trans by blast
  then show ?thesis by (simp add: line_count_prefix)
qed

theorem merge_changelog_monotone_witness:
  "prefix (py_rstrip ''- a'') (foldl merge_changelog ''- a'' [''- b'', ''- c'']) \<and>
   line_count (py_rstrip ''- a'')
     \<le> line_count (foldl merge_changelog ''- a'' [''- b'', ''- c''])"
  using merge_changelog_monotone [of "[''- b'', ''- c'']" "''- a''"] by simp

text \<open>
  C6: for every section key and every old body, the empty patch and the patch
  \<open>[NO_CHANGE]\<close> return the old body unchanged, in the changelog merge, in the general
  section merge and in the dispatch between them.
\<close>

theorem no_change_patch_identity:
  assumes "patch = [] \<or> patch = ''[NO_CHANGE]''"
  shows "merge_generated section_key old_body patch = old_body \<and>
         merge_changelog old_body patch = old_body \<and>
         merge_section_changes old_body patch = old_body"
  using assms
  by (auto simp: merge_generated_def merge_changelog_def merge_section_changes_def)

theorem no_change_patch_identity_witness:
  "merge_generated ''changelog'' ''- first entry'' ''[NO_CHANGE]'' = ''- first entry'' \<and>
   merge_changelog ''- first entry'' ''[NO_CHANGE]'' = ''- first entry'' \<and>
   merge_section_changes ''- first entry'' ''[NO_CHANGE]'' = ''- first entry''"
  by (rule no_change_patch_identity) simp

text \<open>
  C7 fails on the code: with an empty old body, the patch \<open>[UPDATE: foo]\<close>, newline,
  \<open>bar\<close> comes back as \<open>foo]\<close>, newline, \<open>bar\<close>. The first \<open>replace\<close> removes the
  opening \<open>[UPDATE:\<close>, so the substitution that was to delete the whole marker finds
  nothing, and the snippet and the closing bracket stay.
\<close>

theorem merge_section_changes_empty_old_keeps_snippet:
  "merge_section_changes [] (''[UPDATE: foo]'' @ [NL] @ ''bar'') = ''foo]'' @ [NL] @ ''bar''"
  by (simp add: merge_defs str_defs)

text \<open>
  C10: a patch that contains \<open>[NO_CHANGE]\<close> anywhere, whatever else it contains, makes
  both the general section merge and the changelog merge return the old body unchanged.
\<close>

theorem no_change_substring_wins:
  assumes "py_in ''[NO_CHANGE]'' patch"
  shows "merge_section_changes old_body patch = old_body \<and>
         merge_changelog old_body patch = old_body"
  using assms by (simp add: merge_section_changes_def merge_changelog_def)

theorem no_change_substring_wins_witness:
  "merge_section_changes ''Old text.'' ''[UPDATE: Old] New text. [NO_CHANGE] [ADD] More.''
     = ''Old text.'' \<and>
   merge_changelog ''Old text.'' ''[UPDATE: Old] New text. [NO_CHANGE] [ADD] More.''
     = ''Old text.''"
  by (rule no_change_substring_wins) simp

section \<open>Properties of the diff file matcher\<close>

lemma startswith_prefix: "startswith s p \<longleftrightarrow> prefix p s"
  by (induction s p rule: startswith.induct) auto

lemma endswith_suffix: "endswith s p \<longleftrightarrow> suffix p s"
  by (simp add: endswith_def startswith_prefix suffix_to_prefix)

lemma replace_scan_char:
  "replace_scan [a] [b] 0 s = map (\<lambda>c. if c = a then b else c) s"
  by (induction s) simp_all

lemma norm_name_query_core:
  assumes "query_core filename q"
  shows "norm_name filename = slashes q"
proof -
  from assms obtain l r where f: "filename = l @ q @ r"
    and l: "\<forall>c \<in> set l. py_isspace c" and r: "\<forall>c \<in> set r. py_isspace c"
    and q: "q = [] \<or> (\<not> py_isspace (hd q) \<and> \<not> py_isspace (last q))"
    by (auto simp: query_core_def list_all_iff)
  have "py_strip q = q"
  proof (cases "q = []")
    case True
    then show ?thesis by (simp add: py_strip_Nil_iff)
  next
    case False
    with q show ?thesis by (intro py_strip_ends_fixed) simp_all
  qed
  then have "py_strip filename = q"
    unfolding f using l r by (intro py_strip_pad) simp_all
  then show ?thesis
    by (simp add: norm_name_def py_replace_def replace_scan_char slashes_def)
qed

lemma query_core_strip: "query_core filename (py_strip filename)"
proof -
  let ?l = "takeWhile py_isspace filename"
  let ?m = "dropWhile py_isspace filename"
  let ?r = "rev (takeWhile py_isspace (rev ?m))"
  have core: "py_strip filename = rev (dropWhile py_isspace (rev ?m))"
    by (simp add: py_strip_def py_lstrip_def py_rstrip_def)
  have "rev ?m = takeWhile py_isspace (rev ?m) @ dropWhile py_isspace (rev ?m)"
    by simp
  then have "?m = py_strip filename @ ?r"
    unfolding core by (metis rev_append rev_rev_ident)
  then have "filename = ?l @ py_strip filename @ ?r"
    by (metis takeWhile_dropWhile_id)
  moreover have "list_all py_isspace ?l"
    by (auto simp: list_all_iff dest: set_takeWhileD)
  moreover have "list_all py_isspace ?r"
    by (auto simp: list_all_iff dest: set_takeWhileD)
  moreover have "py_strip filename = [] \<or>
      (\<not> py_isspace (hd (py_strip filename)) \<and> \<not> py_isspace (last (py_strip filename)))"
    using py_strip_fixed_ends [OF py_strip_idem] by blast
  ultimately show ?thesis unfolding query_core_def by blast
qed

lemma suffix_match_loop_first:
  assumes "\<forall>(k, d) \<in> set pre. \<not> suffix_hit q k" and "suffix_hit q key"
  shows "suffix_match_loop (slashes q) (pre @ (key, block) # post) = block"
  using assms by (induction pre) (auto simp: suffix_hit_def endswith_suffix)

lemma suffix_match_loop_none:
  assumes "\<forall>(k, d) \<in> set m. \<not> suffix_hit q k"
  shows "suffix_match_loop (slashes q) m = []"
  using assms by (induction m) (auto simp: suffix_hit_def endswith_suffix)

lemma find_diff_exact:
  "map_of diff_map filename = Some block \<Longrightarrow> find_diff_for_file filename diff_map = block"
  by (simp add: find_diff_for_file_def)

lemma find_diff_prefixed:
  "map_of diff_map filename = None \<Longrightarrow> map_of diff_map (''a/'' @ filename) = Some block
     \<Longrightarrow> find_diff_for_file filename diff_map = block"
  by (simp add: find_diff_for_file_def)

lemma find_diff_suffix:
  assumes "map_of diff_map filename = None" and "map_of diff_map (''a/'' @ filename) = None"
    and "query_core filename q"
  shows "find_diff_for_file filename diff_map = suffix_match_loop (slashes q) diff_map"
  using assms by (simp add: find_diff_for_file_def norm_name_query_core)

lemma example_query_core: "query_core ('' lib'' @ [CHR 0x5C] @ ''util.py '') (''lib'' @ [CHR 0x5C] @ ''util.py'')"
  unfolding query_core_def
  by (rule exI [of _ "'' ''"], rule exI [of _ "'' ''"]) (simp add: py_isspace_def)

text \<open>
  C4, as stated, fails: rule (3) of the claim normalizes path separators only, but the
  code also strips the white space around the query. For the query \<open>main.py\<close> with a
  space on either side and the one key \<open>backend/main.py\<close>, no rule of the claim
  matches (no exact key, no key with the prefix \<open>a/\<close>, no suffix in either direction
  after the separators are normalized), yet the code returns the block.
\<close>

theorem find_diff_for_file_claimed_policy_counterexample:
  "map_of example_windows_map '' main.py '' = None \<and>
   map_of example_windows_map (''a/'' @ '' main.py '') = None \<and>
   \<not> suffix ''backend/main.py'' (slashes '' main.py '') \<and>
   \<not> suffix (slashes '' main.py '') ''backend/main.py'' \<and>
   find_diff_for_file '' main.py '' example_windows_map
     = ''diff --git a/backend/main.py b/backend/main.py''"
  by (simp add: example_windows_map_def slashes_def suffix_to_prefix find_diff_for_file_def
      norm_name_def endswith_def str_defs)

text \<open>
  C4 (amended): \<open>_find_diff_for_file\<close> applies its rules in order, first hit winning:
  (1) the block of the key equal to the query; else (2) the block of the key equal to
  the query prefixed with \<open>a/\<close>; else (3) the block of the first key, in the map's
  order, that is a suffix of the normalized query or has it as a suffix, where the
  normalized query is the query without the white space around it and with its
  backslashes turned into \<open>/\<close> (keys are compared as they are); else the empty block,
  in particular for the empty map. With the keys \<open>backend/main.py\<close> and
  \<open>lib/util.py\<close>, the query \<open>main.py\<close> gets the block of \<open>backend/main.py\<close> and the
  query \<open>notfound.py\<close> the empty block.
\<close>

theorem find_diff_for_file_policy:
  "(map_of diff_map filename = Some block \<longrightarrow> find_diff_for_file filename diff_map = block) \<and>
   (map_of diff_map filename = None \<and> map_of diff_map (''a/'' @ filename) = Some block
      \<longrightarrow> find_diff_for_file filename diff_map = block) \<and>
   (map_of diff_map filename = None \<and> map_of diff_map (''a/'' @ filename) = None \<and>
    query_core filename q \<and>
    diff_map = pre @ (key, block) # post \<and> suffix_hit q key \<and>
    (\<forall>(k, d) \<in> set pre. \<not> suffix_hit q k)
      \<longrightarrow> find_diff_for_file filename diff_map = block) \<and>
   (map_of diff_map filename = None \<and> map_of diff_map (''a/'' @ filename) = None \<and>
    query_core filename q \<and>
    (\<forall>(k, d) \<in> set diff_map. \<not> suffix_hit q k)
      \<longrightarrow> find_diff_for_file filename diff_map = []) \<and>
   (\<exists>q'. query_core filename q') \<and>
   find_diff_for_file filename [] = [] \<and>
   find_diff_for_file ''main.py'' [(''backend/main.py'', b1), (''lib/util.py'', b2)] = b1 \<and>
   find_diff_for_file ''notfound.py'' [(''backend/main.py'', b1), (''lib/util.py'', b2)] = []"
proof (intro conjI impI; (elim conjE)?)
  show "find_diff_for_file filename [] = []"
    by (simp add: find_diff_for_file_def)
  show "find_diff_for_file ''main.py'' [(''backend/main.py'', b1), (''lib/util.py'', b2)] = b1"
    by (simp add: find_diff_for_file_def norm_name_def endswith_def str_defs)
  show "find_diff_for_file ''notfound.py'' [(''backend/main.py'', b1), (''lib/util.py'', b2)] = []"
    by (simp add: find_diff_for_file_def norm_name_def endswith_def str_defs)
  show "\<exists>q'. query_core filename q'"
    using query_core_strip by blast
next
  assume "map_of diff_map filename = Some block"
  then show "find_diff_for_file filename diff_map = block" by (rule find_diff_exact)
next
  assume "map_of diff_map filename = None" "map_of diff_map (''a/'' @ filename) = Some block"
  then show "find_diff_for_file filename diff_map = block" by (rule find_diff_prefixed)
next
  assume a: "map_of diff_map filename = None" "map_of diff_map (''a/'' @ filename) = None"
    "query_core filename q"
    and m: "diff_map = pre @ (key, block) # post"
    and hit: "suffix_hit q key" "\<forall>(k, d) \<in> set pre. \<not> suffix_hit q k"
  have "suffix_match_loop (slashes q) (pre @ (key, block) # post) = block"
    using hit(2) hit(1) by (rule suffix_match_loop_first)
  then show "find_diff_for_file filename diff_map = block"
    unfolding find_diff_suffix [OF a] unfolding m .
next
  assume a: "map_of diff_map filename = None" "map_of diff_map (''a/'' @ filename) = None"
    "query_core filename q"
    and none: "\<forall>(k, d) \<in> set diff_map. \<not> suffix_hit q k"
  show "find_diff_for_file filename diff_map = []"
    by (simp add: find_diff_suffix [OF a] suffix_match_loop_none [OF none])
qed

theorem find_diff_for_file_policy_witness:
  "find_diff_for_file ''lib/util.py'' example_diff_map = ''diff --git a/lib/util.py b/lib/util.py'' \<and>
   find_diff_for_file ''setup.py'' example_diff_map = ''diff --git a/a/setup.py b/a/setup.py'' \<and>
   find_diff_for_file ('' lib'' @ [CHR 0x5C] @ ''util.py '') example_diff_map
     = ''diff --git a/lib/util.py b/lib/util.py'' \<and>
   find_diff_for_file ('' lib'' @ [CHR 0x5C] @ ''nothing.py '') example_diff_map = []"
proof (intro conjI)
  show "find_diff_for_file ''lib/util.py'' example_diff_map = ''diff --git a/lib/util.py b/lib/util.py''"
    using find_diff_for_file_policy [of example_diff_map "''lib/util.py''" "''diff --git a/lib/util.py b/lib/util.py''"]
    by (simp add: example_diff_map_def)
  show "find_diff_for_file ''setup.py'' example_diff_map = ''diff --git a/a/setup.py b/a/setup.py''"
    using find_diff_for_file_policy [of example_diff_map "''setup.py''" "''diff --git a/a/setup.py b/a/setup.py''"]
    by (simp add: example_diff_map_def)
  have hit: "suffix_hit (''lib'' @ [CHR 0x5C] @ ''util.py'') ''lib/util.py''"
    and miss: "\<not> suffix_hit (''lib'' @ [CHR 0x5C] @ ''util.py'') ''backend/main.py''"
    by (simp_all add: suffix_hit_def slashes_def suffix_to_prefix)
  show "find_diff_for_file ('' lib'' @ [CHR 0x5C] @ ''util.py '') example_diff_map
     = ''diff --git a/lib/util.py b/lib/util.py''"
    using find_diff_for_file_policy [of example_diff_map "'' lib'' @ [CHR 0x5C] @ ''util.py ''"
        "''diff --git a/lib/util.py b/lib/util.py''" "''lib'' @ [CHR 0x5C] @ ''util.py''"
        "[(''backend/main.py'', ''diff --git a/backend/main.py b/backend/main.py'')]"
        "''lib/util.py''"
        "[(''a/setup.py'', ''diff --git a/a/setup.py b/a/setup.py'')]"]
      hit miss example_query_core
    by (simp add: example_diff_map_def)
  have core2: "query_core ('' lib'' @ [CHR 0x5C] @ ''nothing.py '') (''lib'' @ [CHR 0x5C] @ ''nothing.py'')"
    unfolding query_core_def
    by (rule exI [of _ "'' ''"], rule exI [of _ "'' ''"]) (simp add: py_isspace_def)
  have none: "\<forall>(k, d) \<in> set example_diff_map. \<not> suffix_hit (''lib'' @ [CHR 0x5C] @ ''nothing.py'') k"
    by (simp add: suffix_hit_def slashes_def example_diff_map_def suffix_to_prefix)
  show "find_diff_for_file ('' lib'' @ [CHR 0x5C] @ ''nothing.py '') example_diff_map = []"
    using find_diff_for_file_policy [of example_diff_map "'' lib'' @ [CHR 0x5C] @ ''nothing.py ''" _
        "''lib'' @ [CHR 0x5C] @ ''nothing.py''"]
      none core2
    by (simp add: example_diff_map_def)
qed

section \<open>Properties of the repository snapshot fetcher\<close>

lemma download_loop_forbidden:
  assumes "get b = Some 403"
    and "\<forall>x \<in> set pre. \<exists>s. get x = Some s \<and> s \<noteq> 200 \<and> s \<noteq> 403"
  shows "download_loop get extract (pre @ b # post) = (pre @ [b], None)"
  using assms(2)
proof (induction pre)
  case Nil
  show ?case using assms(1) by simp
next
  case (Cons x pre)
  then obtain s where s: "get x = Some s" "s \<noteq> 200" "s \<noteq> 403" by auto
  have ih: "download_loop get extract (pre @ b # post) = (pre @ [b], None)"
    using Cons by simp
  show ?case using s ih by (simp add: Let_def)
qed

text \<open>
  C8: in the branch loop of the archive download, a 404 and every other status that is
  neither 200 nor 403 move on to the next candidate branch, and a 403 ends the loop at
  once: when the candidates before it were answered with statuses other than 200 and
  403, the branches requested are exactly those up to the forbidden one, none after it,
  and the download fails (returns \<open>None\<close>).
\<close>

theorem download_loop_status_policy:
  "(\<forall>s. get b = Some s \<and> s \<noteq> 200 \<and> s \<noteq> 403 \<longrightarrow>
      download_loop get extract (b # rest)
        = (b # fst (download_loop get extract rest), snd (download_loop get extract rest))) \<and>
   (get b = Some 403 \<longrightarrow> download_loop get extract (b # rest) = ([b], None)) \<and>
   (get b = Some 403 \<and> (\<forall>x \<in> set pre. \<exists>s. get x = Some s \<and> s \<noteq> 200 \<and> s \<noteq> 403) \<longrightarrow>
      download_loop get extract (pre @ b # post) = (pre @ [b], None))"
  by (auto simp: download_loop_forbidden Let_def)

theorem download_loop_status_policy_witness:
  "download_repository_zip_sync ''develop'' example_get example_extract
     = ([''develop'', ''main''], None)"
  using download_loop_status_policy [of example_get "''main''" example_extract "[''master'']" "[''develop'']"]
  by (simp add: download_repository_zip_sync_def branches_to_try_def example_get_def)

section \<open>Properties of the summarization fan-outs\<close>

text \<open>
  C3 fails on \<open>file_summarizer_node\<close>: its parallel branch appends each result as its
  worker finishes and never puts the results back in input order (the position it
  stores with each future is not used). With two files and the second worker finishing
  first, the summaries come back in the order second, first.
\<close>

theorem file_summarizer_fanout_completion_order:
  "is_completion_order [1, 0] 2 \<and>
   file_summarizer_fanout [1, 0] 4 False example_summarizer [''a.py'', ''b.py'']
     = [''summary of b.py'', ''summary of a.py'']"
  by code_simp

text \<open>
  The sibling fan-out, \<open>_generate_file_summaries\<close>, does restore the input order: for
  every completion order of its pool, the summaries it returns are, position by
  position, summaries of the files of \<open>changed_files\<close>.
\<close>

lemma classify_loop_files:
  "classify_loop diff_map summaries high_medium fs = (S, H) \<Longrightarrow>
   map file_name S = map file_name summaries @ filter (\<lambda>f. get_file_priority f = ''low'') fs \<and>
   map fst H = map fst high_medium @ filter (\<lambda>f. get_file_priority f \<noteq> ''low'') fs"
  by (induction fs arbitrary: summaries high_medium) (auto simp: Let_def split: if_splits)

lemma order_map_of_fold:
  "foldl (\<lambda>m s. m(file_name s \<mapsto> s)) m xs f = Some s \<Longrightarrow>
     (s \<in> set xs \<and> file_name s = f) \<or> m f = Some s"
proof (induction xs arbitrary: m)
  case Nil
  then show ?case by simp
next
  case (Cons a xs)
  from Cons.prems have "foldl (\<lambda>m s. m(file_name s \<mapsto> s)) (m(file_name a \<mapsto> a)) xs f = Some s"
    by (simp only: foldl_Cons)
  then have "(s \<in> set xs \<and> file_name s = f) \<or> (m(file_name a \<mapsto> a)) f = Some s"
    by (rule Cons.IH)
  then show ?case by (auto split: if_splits)
qed

lemma order_map_of_dom:
  "dom (foldl (\<lambda>m s. m(file_name s \<mapsto> s)) m xs) = dom m \<union> file_name ` set xs"
  by (induction xs arbitrary: m) auto

lemma map_filter_all_some:
  assumes "\<forall>f \<in> set fs. \<exists>s. m f = Some s \<and> file_name s = f"
  shows "map file_name (List.map_filter m fs) = fs"
  using assms by (induction fs) (auto simp: List.map_filter_simps)

lemma summarize_file: "file_name (summarize diff_map complete_call f p) = f"
  by (simp add: summarize_def Let_def)

lemma as_completed_files:
  assumes "is_completion_order completion (length H)"
  shows "file_name ` set (as_completed completion
           (map (\<lambda>(j, (f, p)). summarize diff_map (complete_call j) f p) (zip [0..<length H] H)))
         = fst ` set H"
proof -
  define futures where
    "futures = map (\<lambda>(j, (f, p)). summarize diff_map (complete_call j) f p) (zip [0..<length H] H)"
  have nth: "file_name (futures ! j) = fst (H ! j)" if "j < length H" for j
    using that by (simp add: futures_def summarize_file split: prod.splits)
  have "set (as_completed completion futures) = (\<lambda>j. futures ! j) ` {0..<length H}"
    using assms by (simp add: as_completed_def is_completion_order_def)
  then have "file_name ` set (as_completed completion futures)
             = (\<lambda>j. file_name (futures ! j)) ` {0..<length H}"
    by (simp add: image_image)
  also have "\<dots> = (\<lambda>j. fst (H ! j)) ` {0..<length H}"
    by (rule image_cong) (simp_all add: nth)
  also have "\<dots> = set (map fst (map (\<lambda>j. H ! j) [0..<length H]))"
    by (simp add: image_image)
  also have "\<dots> = fst ` set H"
    by (simp only: map_nth set_map)
  finally show ?thesis by (simp only: futures_def)
qed

lemma generate_file_summaries_llm_order:
  assumes "is_completion_order completion
             (length (filter (\<lambda>f. get_file_priority f \<noteq> ''low'') changed_files))"
  shows "map file_name (generate_file_summaries_llm completion complete_call diff_map changed_files)
         = changed_files"
proof -
  obtain S H where cl: "classify_loop diff_map [] [] changed_files = (S, H)"
    by (cases "classify_loop diff_map [] [] changed_files")
  from classify_loop_files [OF cl]
  have S: "map file_name S = filter (\<lambda>f. get_file_priority f = ''low'') changed_files"
    and H: "map fst H = filter (\<lambda>f. get_file_priority f \<noteq> ''low'') changed_files"
    by simp_all
  from H have lenH: "length H = length (filter (\<lambda>f. get_file_priority f \<noteq> ''low'') changed_files)"
    by (metis length_map)
  define futures where
    "futures = map (\<lambda>(j, (f, p)). summarize diff_map (complete_call j) f p) (zip [0..<length H] H)"
  define summaries where
    "summaries = (if H \<noteq> [] then S @ as_completed completion futures else S)"
  have done_files: "file_name ` set (as_completed completion futures) = fst ` set H"
    unfolding futures_def using assms lenH by (intro as_completed_files) simp
  have "H = [] \<Longrightarrow> as_completed completion futures = []"
    using assms lenH by (simp add: is_completion_order_def as_completed_def)
  then have summaries: "summaries = S @ as_completed completion futures"
    by (simp add: summaries_def)
  have "file_name ` set summaries = set (map file_name S) \<union> set (map fst H)"
    unfolding summaries using done_files by (simp add: image_Un)
  also have "\<dots> = set changed_files"
    unfolding S H by auto
  finally have dom: "dom (order_map_of summaries) = set changed_files"
    by (simp add: order_map_of_def order_map_of_dom)
  have "\<forall>f \<in> set changed_files. \<exists>s. order_map_of summaries f = Some s \<and> file_name s = f"
  proof
    fix f assume "f \<in> set changed_files"
    with dom obtain s where s: "order_map_of summaries f = Some s" by auto
    then have "file_name s = f"
      unfolding order_map_of_def by (auto dest: order_map_of_fold)
    with s show "\<exists>s. order_map_of summaries f = Some s \<and> file_name s = f" by simp
  qed
  then have "map file_name (List.map_filter (order_map_of summaries) changed_files) = changed_files"
    by (rule map_filter_all_some)
  moreover have "generate_file_summaries_llm completion complete_call diff_map changed_files
                 = List.map_filter (order_map_of summaries) changed_files"
    by (simp add: generate_file_summaries_llm_def cl summaries_def futures_def)
  ultimately show ?thesis by simp
qed

end
